theory Spec2Isabelle
  imports Complex_Main
begin

section \<open>Data model (src/flappy-bird.tsx, lines 7-37)\<close>

text \<open>
  The simulation of the Flappy Bird component: the five pieces of React state and the
  callbacks \<open>initGame\<close>, \<open>jump\<close>, \<open>generatePipe\<close>, \<open>checkCollision\<close> and \<open>gameLoop\<close>.
  A JavaScript \<open>number\<close> that holds a coordinate or a velocity is an exact \<open>real\<close> here
  (every constant of the game is a small dyadic rational; rounding of IEEE doubles is not
  part of the model); the two scores only ever hold counts and are \<open>nat\<close>.
  The fields \<open>x\<close> and \<open>y\<close> of the source are \<open>bird_x\<close>, \<open>bird_y\<close> and \<open>pipe_x\<close>.
\<close>

record Bird =
  bird_x :: real
  bird_y :: real
  velocity :: real

record Pipe =
  pipe_x :: real
  topHeight :: real
  bottomY :: real
  passed :: bool

datatype GameState = Menu | Playing | GameOver

record Game =
  bird :: Bird
  pipes :: "Pipe list"
  score :: nat
  gameState :: GameState
  highScore :: nat

definition CANVAS_WIDTH :: real where "CANVAS_WIDTH = 400"
definition CANVAS_HEIGHT :: real where "CANVAS_HEIGHT = 600"
definition BIRD_SIZE :: real where "BIRD_SIZE = 20"
definition PIPE_WIDTH :: real where "PIPE_WIDTH = 60"
definition PIPE_GAP :: real where "PIPE_GAP = 150"
definition GRAVITY :: real where "GRAVITY = 0.5"
definition JUMP_FORCE :: real where "JUMP_FORCE = - 8"
definition PIPE_SPEED :: real where "PIPE_SPEED = 2"

text \<open>The values the five \<open>useState\<close> calls start with (lines 33-37).\<close>

definition startBird :: Bird where
  "startBird = \<lparr>bird_x = 100, bird_y = 300, velocity = 0\<rparr>"

definition initialGame :: Game where
  "initialGame = \<lparr>bird = startBird, pipes = [], score = 0, gameState = Menu, highScore = 0\<rparr>"

section \<open>Operations\<close>

text \<open>\<open>initGame\<close> (lines 40-45): four setters; the high score is not touched.\<close>

definition initGame :: "Game \<Rightarrow> Game" where
  "initGame s = s\<lparr>bird := \<lparr>bird_x = 100, bird_y = 300, velocity = 0\<rparr>,
                   pipes := [], score := 0, gameState := Playing\<rparr>"

text \<open>\<open>jump\<close> (lines 48-54).\<close>

definition jump :: "Game \<Rightarrow> Game" where
  "jump s =
     (if gameState s = Playing then s\<lparr>bird := (bird s)\<lparr>velocity := JUMP_FORCE\<rparr>\<rparr>
      else if gameState s = Menu \<or> gameState s = GameOver then initGame s
      else s)"

text \<open>
  \<open>generatePipe\<close> (lines 57-65). The argument \<open>r\<close> is the value \<open>Math.random()\<close> returns,
  a number with \<open>0 \<le> r < 1\<close>.
\<close>

definition generatePipe :: "real \<Rightarrow> Pipe" where
  "generatePipe r =
     (let top = r * (CANVAS_HEIGHT - PIPE_GAP - 100) + 50
      in \<lparr>pipe_x = CANVAS_WIDTH, topHeight = top, bottomY = top + PIPE_GAP, passed = False\<rparr>)"

text \<open>
  \<open>checkCollision\<close> (lines 68-86): the ground and ceiling test, then the loop over the
  pipes, which returns at the first pipe that is hit.
\<close>

definition hitsPipe :: "Bird \<Rightarrow> Pipe \<Rightarrow> bool" where
  "hitsPipe b pipe =
     (bird_x b + BIRD_SIZE > pipe_x pipe \<and>
      bird_x b < pipe_x pipe + PIPE_WIDTH \<and>
      (bird_y b < topHeight pipe \<or> bird_y b + BIRD_SIZE > bottomY pipe))"

fun pipeLoop :: "Bird \<Rightarrow> Pipe list \<Rightarrow> bool" where
  "pipeLoop b [] = False"
| "pipeLoop b (pipe # rest) = (if hitsPipe b pipe then True else pipeLoop b rest)"

definition checkCollision :: "Bird \<Rightarrow> Pipe list \<Rightarrow> bool" where
  "checkCollision b ps =
     (if bird_y b \<le> 0 \<or> bird_y b \<ge> CANVAS_HEIGHT - BIRD_SIZE then True
      else pipeLoop b ps)"

text \<open>
  The pipe updater of \<open>gameLoop\<close>, lines 100-108: move every pipe, drop the pipes that left
  the screen, push a new pipe when the list is empty or its last pipe is far enough in.
  (\<open>||\<close> short-circuits, so the last element is read on a non-empty list only.)
\<close>

definition movePipes :: "real \<Rightarrow> Pipe list \<Rightarrow> Pipe list" where
  "movePipes r prevPipes =
     (let moved = map (\<lambda>pipe. pipe\<lparr>pipe_x := pipe_x pipe - PIPE_SPEED\<rparr>) prevPipes;
          kept = filter (\<lambda>pipe. pipe_x pipe > - PIPE_WIDTH) moved
      in if kept = [] then kept @ [generatePipe r]
         else if pipe_x (last kept) < CANVAS_WIDTH - 200 then kept @ [generatePipe r]
         else kept)"

text \<open>
  The \<open>forEach\<close> of lines 111-116, with the pending \<open>setScore\<close> increments threaded as
  a counter: a pipe not yet passed whose right edge is left of the bird is marked and
  counted.
\<close>

fun checkScore :: "Bird \<Rightarrow> Pipe list \<Rightarrow> nat \<Rightarrow> Pipe list \<times> nat" where
  "checkScore b [] n = ([], n)"
| "checkScore b (pipe # rest) n =
     (if \<not> passed pipe \<and> pipe_x pipe + PIPE_WIDTH < bird_x b
      then (case checkScore b rest (n + 1) of (rest', m) \<Rightarrow> (pipe\<lparr>passed := True\<rparr> # rest', m))
      else (case checkScore b rest n of (rest', m) \<Rightarrow> (pipe # rest', m)))"

text \<open>
  \<open>gameLoop\<close> (lines 89-131), one frame, as one sequential update of the five state
  variables. \<open>score\<close> in \<open>Math.max(prev, score)\<close> (line 121) is the variable of the closure:
  the score of the render the callback was created in. \<open>score\<close> is a dependency of the
  callback (line 131) and the effect of lines 134-143 schedules the callback of the latest
  render, so this is the score the frame starts with; the increments of line 114 are
  pending updates of the state and are not in it.
\<close>

definition gameLoop :: "real \<Rightarrow> Game \<Rightarrow> Game" where
  "gameLoop r s =
     (if gameState s \<noteq> Playing then s
      else
        let prev = bird s;
            newBird = prev\<lparr>velocity := velocity prev + GRAVITY,
                           bird_y := bird_y prev + velocity prev + GRAVITY\<rparr>;
            (newPipes, newScore) = checkScore newBird (movePipes r (pipes s)) (score s)
        in if checkCollision newBird newPipes
           then s\<lparr>bird := newBird, pipes := newPipes, score := newScore,
                  gameState := GameOver, highScore := max (highScore s) (score s)\<rparr>
           else s\<lparr>bird := newBird, pipes := newPipes, score := newScore\<rparr>)"

section \<open>Runs of the engine\<close>

text \<open>
  The engine is driven by frames and by the jump input; \<open>initGame\<close> is the reset of the
  specification. \<open>Frame r\<close> carries the value \<open>Math.random()\<close> would return in that frame.
  A run applies a list of events in order.
\<close>

datatype Event = Frame real | Impulse | Reset

fun step :: "Event \<Rightarrow> Game \<Rightarrow> Game" where
  "step (Frame r) s = gameLoop r s"
| "step Impulse s = jump s"
| "step Reset s = initGame s"

fun validEvent :: "Event \<Rightarrow> bool" where
  "validEvent (Frame r) = (0 \<le> r \<and> r < 1)"
| "validEvent Impulse = True"
| "validEvent Reset = True"

definition run :: "Event list \<Rightarrow> Game \<Rightarrow> Game" where
  "run es s = fold step es s"

section \<open>An invariant of play\<close>

text \<open>
  What holds of every Playing state that a run from the initial state reaches, with the
  constants of the game written out (the ground line is \<open>CANVAS_HEIGHT - BIRD_SIZE = 580\<close>).
  \<open>energy\<close> is a quantity a frame leaves unchanged: with \<open>v' = v + 1/2\<close> and \<open>y' = y + v'\<close>,
  \<open>y' - v'\<^sup>2 - v'/2 = y - v\<^sup>2 - v/2\<close>. It bounds the speed the bird can have at a height.
  A pipe is marked \<open>passed\<close> exactly when it is left of \<open>x = 40\<close>; while it overlaps the
  bird (\<open>40 < x < 120\<close>) the bird is in its gap; and one frame before it is scored
  (\<open>40 \<le> x < 42\<close>) the bird is far enough from ceiling and ground to survive the next
  frame. Consecutive pipes are more than 200 apart.
\<close>

definition energy :: "Bird \<Rightarrow> real" where
  "energy b = bird_y b - velocity b * velocity b - velocity b / 2"

definition pipeInv :: "Bird \<Rightarrow> Pipe \<Rightarrow> bool" where
  "pipeInv b p \<longleftrightarrow>
     50 \<le> topHeight p \<and> bottomY p \<le> 550 \<and> (passed p \<longleftrightarrow> pipe_x p < 40) \<and>
     (40 < pipe_x p \<and> pipe_x p < 120 \<longrightarrow>
        topHeight p \<le> bird_y b \<and> bird_y b + 20 \<le> bottomY p) \<and>
     (40 \<le> pipe_x p \<and> pipe_x p < 42 \<longrightarrow>
        15 / 2 < bird_y b \<and> bird_y b + velocity b + 1 / 2 < 580)"

definition playInv :: "Game \<Rightarrow> bool" where
  "playInv s \<longleftrightarrow>
     bird_x (bird s) = 100 \<and> 0 < bird_y (bird s) \<and> bird_y (bird s) < 580 \<and>
     - 8 \<le> velocity (bird s) \<and> - 60 < energy (bird s) \<and>
     (\<forall>p \<in> set (pipes s). pipeInv (bird s) p) \<and>
     sorted_wrt (\<lambda>p q. pipe_x p + 200 < pipe_x q) (pipes s)"

section \<open>Example states and an example run\<close>

text \<open>
  Two Playing states, written down directly rather than produced by a run, on which single
  frames are evaluated: a bird half a pixel above the ground line, and a bird in the gap of
  a pipe that the next frame scores. \<open>hoverRun\<close> is a whole game: the first jump starts it,
  six more jumps 31 frames apart carry the bird through the gap of the first pipe
  (\<open>topHeight = 190\<close>, \<open>bottomY = 340\<close>), which is scored in frame 182, and then the bird falls
  for 21 frames to \<open>y = 573\<close>, one frame above the ground line.
\<close>

definition groundState :: Game where
  "groundState =
     \<lparr>bird = \<lparr>bird_x = 100, bird_y = 579.5, velocity = 0\<rparr>, pipes = [],
      score = 3, gameState = Playing, highScore = 1\<rparr>"

definition passingState :: Game where
  "passingState =
     \<lparr>bird = \<lparr>bird_x = 100, bird_y = 300, velocity = 0\<rparr>,
      pipes = [\<lparr>pipe_x = 40, topHeight = 200, bottomY = 350, passed = False\<rparr>,
               \<lparr>pipe_x = 242, topHeight = 100, bottomY = 250, passed = False\<rparr>],
      score = 5, gameState = Playing, highScore = 7\<rparr>"

definition hoverRun :: "Event list" where
  "hoverRun =
     Impulse # concat (replicate 6 (Impulse # replicate 31 (Frame (2/5))))
       @ replicate 21 (Frame (2/5))"

section \<open>Bird integration\<close>

lemmas game_constants =
  CANVAS_WIDTH_def CANVAS_HEIGHT_def BIRD_SIZE_def PIPE_WIDTH_def PIPE_GAP_def
  GRAVITY_def JUMP_FORCE_def PIPE_SPEED_def

lemma gameLoop_bird:
  "gameState s = Playing \<Longrightarrow>
     bird (gameLoop r s) =
       (bird s)\<lparr>velocity := velocity (bird s) + GRAVITY,
                bird_y := bird_y (bird s) + velocity (bird s) + GRAVITY\<rparr>"
  by (simp add: gameLoop_def Let_def split: prod.split)

lemma gameLoop_idle: "gameState s \<noteq> Playing \<Longrightarrow> gameLoop r s = s"
  by (simp add: gameLoop_def)

text \<open>The scoring pass as a map and a count, and what a frame does to each field.\<close>

lemma checkScore_eq:
  "checkScore b ps n =
     (map (\<lambda>p. if \<not> passed p \<and> pipe_x p + PIPE_WIDTH < bird_x b then p\<lparr>passed := True\<rparr> else p) ps,
      n + length (filter (\<lambda>p. \<not> passed p \<and> pipe_x p + PIPE_WIDTH < bird_x b) ps))"
  by (induction ps arbitrary: n) simp_all

lemma gameLoop_pipes:
  "gameState s = Playing \<Longrightarrow>
     pipes (gameLoop r s) =
       map (\<lambda>p. if \<not> passed p \<and> pipe_x p + PIPE_WIDTH < bird_x (bird s) then p\<lparr>passed := True\<rparr> else p)
         (movePipes r (pipes s))"
  by (simp add: gameLoop_def Let_def checkScore_eq)

lemma gameLoop_score:
  "gameState s = Playing \<Longrightarrow>
     score (gameLoop r s) =
       score s + length (filter (\<lambda>p. \<not> passed p \<and> pipe_x p + PIPE_WIDTH < bird_x (bird s))
                          (movePipes r (pipes s)))"
  by (simp add: gameLoop_def Let_def checkScore_eq)

lemma gameLoop_highScore:
  "highScore (gameLoop r s) =
     (if gameState (gameLoop r s) = GameOver \<and> gameState s = Playing
      then max (highScore s) (score s) else highScore s)"
  by (simp add: gameLoop_def Let_def checkScore_eq)

lemma gameLoop_gameState:
  "gameState s = Playing \<Longrightarrow>
     gameState (gameLoop r s) =
       (if checkCollision (bird (gameLoop r s)) (pipes (gameLoop r s)) then GameOver else Playing)"
  by (simp add: gameLoop_def Let_def checkScore_eq)

lemmas eval_defs = gameLoop_def checkScore_eq movePipes_def generatePipe_def
  checkCollision_def hitsPipe_def Let_def game_constants jump_def initGame_def

text \<open>
  C1 (as stated). From the start position \<open>y = 300\<close>, \<open>velocity = 0\<close>, one frame in the
  Playing state would give \<open>velocity = 0.5\<close> and \<open>y = 301\<close>. The code does not: line 96
  adds the velocity of the previous frame, \<open>prev.velocity\<close>, and gravity to \<open>y\<close>, so the
  frame ends at \<open>y = 300.5\<close>.
\<close>

theorem gameLoop_first_frame_counterexample:
  "\<not> (velocity (bird (gameLoop 0 (initGame initialGame))) = 0.5 \<and>
      bird_y (bird (gameLoop 0 (initGame initialGame))) = 301)"
  by (simp add: gameLoop_bird initGame_def GRAVITY_def)

text \<open>
  C1 (amended). One frame in the Playing state sets \<open>velocity\<close> to \<open>velocity + GRAVITY\<close> and
  \<open>y\<close> to \<open>y + velocity + GRAVITY\<close> with the velocity the frame started with, which is \<open>y\<close>
  plus the new velocity: gravity enters the position once. From \<open>y = 300\<close>, \<open>velocity = 0\<close>
  the frame yields \<open>velocity = 0.5\<close> and \<open>y = 300.5\<close>.
\<close>

theorem gameLoop_integration:
  "gameState s = Playing \<Longrightarrow>
     velocity (bird (gameLoop r s)) = velocity (bird s) + GRAVITY \<and>
     bird_y (bird (gameLoop r s)) = bird_y (bird s) + velocity (bird (gameLoop r s)) \<and>
     (bird_y (bird s) = 300 \<and> velocity (bird s) = 0 \<longrightarrow>
        velocity (bird (gameLoop r s)) = 0.5 \<and> bird_y (bird (gameLoop r s)) = 300.5)"
  by (simp add: gameLoop_bird GRAVITY_def)

theorem gameLoop_integration_witness:
  "gameState (initGame initialGame) = Playing \<and>
   velocity (bird (gameLoop 0 (initGame initialGame))) = 0.5 \<and>
   bird_y (bird (gameLoop 0 (initGame initialGame))) = 300.5"
proof -
  have playing: "gameState (initGame initialGame) = Playing"
    by (simp add: initGame_def)
  have start: "bird_y (bird (initGame initialGame)) = 300 \<and> velocity (bird (initGame initialGame)) = 0"
    by (simp add: initGame_def)
  from gameLoop_integration [OF playing, of 0] start playing show ?thesis
    by blast
qed

section \<open>Collision predicate\<close>

lemma pipeLoop_iff: "pipeLoop b ps \<longleftrightarrow> (\<exists>p \<in> set ps. hitsPipe b p)"
  by (induction ps) auto

lemma extents_overlap:
  fixes a c w v :: real
  assumes "0 < w" "0 < v"
  shows "{a ..< a + w} \<inter> {c ..< c + v} \<noteq> {} \<longleftrightarrow> c + v > a \<and> c < a + w"
proof
  assume "{a ..< a + w} \<inter> {c ..< c + v} \<noteq> {}"
  then obtain z where "z \<in> {a ..< a + w} \<inter> {c ..< c + v}" by blast
  then have "a \<le> z \<and> z < a + w \<and> c \<le> z \<and> z < c + v" by simp
  then show "c + v > a \<and> c < a + w" by linarith
next
  assume h: "c + v > a \<and> c < a + w"
  have "max a c \<in> {a ..< a + w} \<inter> {c ..< c + v}"
    using h assms by (auto simp: max_def)
  then show "{a ..< a + w} \<inter> {c ..< c + v} \<noteq> {}" by blast
qed

lemma hitsPipe_extents:
  "hitsPipe b p \<longleftrightarrow>
     {pipe_x p ..< pipe_x p + PIPE_WIDTH} \<inter> {bird_x b ..< bird_x b + BIRD_SIZE} \<noteq> {} \<and>
     (bird_y b < topHeight p \<or> bird_y b + BIRD_SIZE > bottomY p)"
proof -
  have "{pipe_x p ..< pipe_x p + PIPE_WIDTH} \<inter> {bird_x b ..< bird_x b + BIRD_SIZE} \<noteq> {}
        \<longleftrightarrow> bird_x b + BIRD_SIZE > pipe_x p \<and> bird_x b < pipe_x p + PIPE_WIDTH"
    by (rule extents_overlap) (simp_all add: PIPE_WIDTH_def BIRD_SIZE_def)
  then show ?thesis by (simp add: hitsPipe_def)
qed

text \<open>
  C3. \<open>checkCollision\<close> is true exactly when the bird is at or above the ceiling, at or
  below the ground line \<open>CANVAS_HEIGHT - BIRD_SIZE\<close>, or some pipe's horizontal extent
  \<open>[pipe.x, pipe.x + PIPE_WIDTH)\<close> meets the bird's \<open>[x, x + BIRD_SIZE)\<close> while the bird is
  above \<open>topHeight\<close> or reaches below \<open>bottomY\<close>. A bird at \<open>y = -1\<close> collides whatever the
  pipes are; a bird strictly between ceiling and ground that lies within the gap of every
  pipe it overlaps does not collide.
\<close>

theorem checkCollision_spec:
  "(checkCollision b ps \<longleftrightarrow>
      bird_y b \<le> 0 \<or> bird_y b \<ge> CANVAS_HEIGHT - BIRD_SIZE \<or>
      (\<exists>p \<in> set ps.
         {pipe_x p ..< pipe_x p + PIPE_WIDTH} \<inter> {bird_x b ..< bird_x b + BIRD_SIZE} \<noteq> {} \<and>
         (bird_y b < topHeight p \<or> bird_y b + BIRD_SIZE > bottomY p))) \<and>
   (bird_y b = - 1 \<longrightarrow> checkCollision b ps) \<and>
   (0 < bird_y b \<and> bird_y b < CANVAS_HEIGHT - BIRD_SIZE \<and>
    (\<forall>p \<in> set ps.
       {pipe_x p ..< pipe_x p + PIPE_WIDTH} \<inter> {bird_x b ..< bird_x b + BIRD_SIZE} \<noteq> {} \<longrightarrow>
       topHeight p \<le> bird_y b \<and> bird_y b + BIRD_SIZE \<le> bottomY p)
    \<longrightarrow> \<not> checkCollision b ps)"
proof -
  have main: "checkCollision b ps \<longleftrightarrow>
      bird_y b \<le> 0 \<or> bird_y b \<ge> CANVAS_HEIGHT - BIRD_SIZE \<or>
      (\<exists>p \<in> set ps.
         {pipe_x p ..< pipe_x p + PIPE_WIDTH} \<inter> {bird_x b ..< bird_x b + BIRD_SIZE} \<noteq> {} \<and>
         (bird_y b < topHeight p \<or> bird_y b + BIRD_SIZE > bottomY p))"
    unfolding checkCollision_def pipeLoop_iff hitsPipe_extents by auto
  have ceiling: "bird_y b = - 1 \<longrightarrow> checkCollision b ps"
    by (simp add: checkCollision_def)
  have gap: "0 < bird_y b \<and> bird_y b < CANVAS_HEIGHT - BIRD_SIZE \<and>
    (\<forall>p \<in> set ps.
       {pipe_x p ..< pipe_x p + PIPE_WIDTH} \<inter> {bird_x b ..< bird_x b + BIRD_SIZE} \<noteq> {} \<longrightarrow>
       topHeight p \<le> bird_y b \<and> bird_y b + BIRD_SIZE \<le> bottomY p)
    \<longrightarrow> \<not> checkCollision b ps"
    unfolding main by fastforce
  from main ceiling gap show ?thesis by blast
qed

theorem checkCollision_spec_witness:
  "checkCollision \<lparr>bird_x = 100, bird_y = - 1, velocity = 0\<rparr> [] \<and>
   \<not> checkCollision \<lparr>bird_x = 100, bird_y = 300, velocity = 0\<rparr>
        [\<lparr>pipe_x = 90, topHeight = 250, bottomY = 400, passed = False\<rparr>]"
proof -
  let ?above = "\<lparr>bird_x = 100, bird_y = - 1, velocity = 0\<rparr>"
  let ?b = "\<lparr>bird_x = 100, bird_y = 300, velocity = 0\<rparr>"
  let ?ps = "[\<lparr>pipe_x = 90, topHeight = 250, bottomY = 400, passed = False\<rparr>]"
  have "bird_y ?above = - 1" by simp
  with checkCollision_spec [of ?above "[]"] have ceiling: "checkCollision ?above []"
    by blast
  have "0 < bird_y ?b \<and> bird_y ?b < CANVAS_HEIGHT - BIRD_SIZE \<and>
    (\<forall>p \<in> set ?ps.
       {pipe_x p ..< pipe_x p + PIPE_WIDTH} \<inter> {bird_x ?b ..< bird_x ?b + BIRD_SIZE} \<noteq> {} \<longrightarrow>
       topHeight p \<le> bird_y ?b \<and> bird_y ?b + BIRD_SIZE \<le> bottomY p)"
    by (simp add: game_constants)
  with checkCollision_spec [of ?b ?ps] have "\<not> checkCollision ?b ?ps"
    by blast
  with ceiling show ?thesis by blast
qed

section \<open>Start, restart and the idle states\<close>

text \<open>
  C7. The jump input in the Menu or the GameOver state starts a game: the state is Playing,
  the score is 0, the bird is at \<open>x = 100\<close>, \<open>y = 300\<close> with velocity 0, and there are no
  pipes.
\<close>

theorem jump_starts_game:
  "gameState s = Menu \<or> gameState s = GameOver \<Longrightarrow>
     gameState (jump s) = Playing \<and> score (jump s) = 0 \<and>
     bird (jump s) = \<lparr>bird_x = 100, bird_y = 300, velocity = 0\<rparr> \<and>
     pipes (jump s) = []"
  by (auto simp: jump_def initGame_def)

theorem jump_starts_game_witness:
  "gameState (jump initialGame) = Playing \<and> score (jump initialGame) = 0 \<and>
   bird (jump initialGame) = \<lparr>bird_x = 100, bird_y = 300, velocity = 0\<rparr> \<and>
   pipes (jump initialGame) = []"
proof -
  have "gameState initialGame = Menu \<or> gameState initialGame = GameOver"
    by (simp add: initialGame_def)
  then show ?thesis by (rule jump_starts_game)
qed

text \<open>
  C8. In the Menu and the GameOver state a frame changes nothing: the whole state (bird,
  pipes, score, high score, game state) is the same after one frame and after any number
  of frames.
\<close>

theorem gameLoop_inert:
  "gameState s = Menu \<or> gameState s = GameOver \<Longrightarrow>
     gameLoop r s = s \<and> fold gameLoop rs s = s"
proof -
  assume idle: "gameState s = Menu \<or> gameState s = GameOver"
  then have one: "gameLoop r' s = s" for r'
    by (auto simp: gameLoop_idle)
  have "fold gameLoop rs s = s"
    by (induction rs) (simp_all add: one)
  with one show ?thesis by simp
qed

theorem gameLoop_inert_witness:
  "gameLoop 0.3 initialGame = initialGame \<and>
   fold gameLoop [0.1, 0.9, 0.5] initialGame = initialGame"
proof -
  have "gameState initialGame = Menu \<or> gameState initialGame = GameOver"
    by (simp add: initialGame_def)
  then show ?thesis by (rule gameLoop_inert)
qed

section \<open>Pipe generation\<close>

text \<open>
  C10. For a random draw \<open>0 \<le> r < 1\<close> the generated pipe has \<open>topHeight\<close> in
  \<open>[50, CANVAS_HEIGHT - PIPE_GAP - 50)\<close> and \<open>bottomY\<close> at most \<open>CANVAS_HEIGHT - 50\<close>: the top
  and the bottom segment are at least 50 high and the gap is strictly inside the canvas.
\<close>

theorem generatePipe_bounds:
  "0 \<le> r \<Longrightarrow> r < 1 \<Longrightarrow>
     50 \<le> topHeight (generatePipe r) \<and>
     topHeight (generatePipe r) < CANVAS_HEIGHT - PIPE_GAP - 50 \<and>
     bottomY (generatePipe r) \<le> CANVAS_HEIGHT - 50 \<and>
     50 \<le> CANVAS_HEIGHT - bottomY (generatePipe r) \<and>
     0 < topHeight (generatePipe r) \<and> bottomY (generatePipe r) < CANVAS_HEIGHT"
  by (simp add: generatePipe_def game_constants)

theorem generatePipe_bounds_witness:
  "topHeight (generatePipe 0) = 50 \<and> bottomY (generatePipe 0) = 200 \<and>
   50 \<le> topHeight (generatePipe (1/2)) \<and> topHeight (generatePipe (1/2)) < CANVAS_HEIGHT - PIPE_GAP - 50 \<and>
   bottomY (generatePipe (1/2)) \<le> CANVAS_HEIGHT - 50"
proof -
  have lo: "(0::real) \<le> 1/2" and hi: "(1/2::real) < 1" by simp_all
  from generatePipe_bounds [OF lo hi] show ?thesis
    by (simp add: generatePipe_def game_constants)
qed

text \<open>
  The specification's invariant \<open>bottomY - topHeight = PIPE_GAP\<close> is not stated here. Line 62
  stores \<open>topHeight + PIPE_GAP\<close> rounded to a binary64 number, and whether the difference of
  the stored values is exactly \<open>PIPE_GAP\<close> depends on that rounding: it is not for
  \<open>Math.random() = 0.3333333333333333\<close>, where the stored values are 166.66666666666666 and
  316.66666666666663. With exact reals the equation is the identity \<open>(t + 150) - t = 150\<close>
  and says nothing about the program.
\<close>

section \<open>Pipes: moving, removal, spawning\<close>

lemma movePipes_cases:
  "q \<in> set (movePipes r ps) \<Longrightarrow>
     q = generatePipe r \<or> (\<exists>p \<in> set ps. q = p\<lparr>pipe_x := pipe_x p - PIPE_SPEED\<rparr>)"
  by (auto simp: movePipes_def Let_def split: if_splits)

text \<open>
  C5. In a frame of the Playing state every pipe's \<open>x\<close> decreases by \<open>PIPE_SPEED\<close>; then exactly
  the pipes with \<open>x \<le> -PIPE_WIDTH\<close> are removed; then one new pipe, generated with
  \<open>x = CANVAS_WIDTH\<close> and \<open>passed = false\<close>, is appended exactly when the sequence is empty or
  the \<open>x\<close> of its last pipe (the sequence is kept leftmost first, so this is the rightmost
  pipe) is less than \<open>CANVAS_WIDTH - 200\<close>. The pipes of the new state are these pipes after
  the scoring pass, which changes \<open>passed\<close> only.
\<close>

theorem movePipes_spec:
  "gameState s = Playing \<Longrightarrow>
     (let moved = map (\<lambda>p. p\<lparr>pipe_x := pipe_x p - PIPE_SPEED\<rparr>) (pipes s);
          kept = filter (\<lambda>p. \<not> pipe_x p \<le> - PIPE_WIDTH) moved;
          new = generatePipe r
      in pipe_x new = CANVAS_WIDTH \<and> \<not> passed new \<and>
         pipes (gameLoop r s) =
           map (\<lambda>p. if \<not> passed p \<and> pipe_x p + PIPE_WIDTH < bird_x (bird s)
                     then p\<lparr>passed := True\<rparr> else p)
             (if kept = [] \<or> pipe_x (last kept) < CANVAS_WIDTH - 200
              then kept @ [new] else kept))"
  by (simp add: gameLoop_pipes movePipes_def generatePipe_def Let_def not_le)

theorem movePipes_spec_witness:
  "pipes (gameLoop 0 passingState) =
     [\<lparr>pipe_x = 38, topHeight = 200, bottomY = 350, passed = True\<rparr>,
      \<lparr>pipe_x = 240, topHeight = 100, bottomY = 250, passed = False\<rparr>] \<and>
   pipes (gameLoop 0 (jump initialGame)) = [generatePipe 0]"
proof -
  have playing: "gameState passingState = Playing"
    by (simp add: passingState_def)
  have started: "gameState (jump initialGame) = Playing"
    by (simp add: jump_def initGame_def initialGame_def)
  from movePipes_spec [OF playing, of 0]
  have first: "pipes (gameLoop 0 passingState) =
     [\<lparr>pipe_x = 38, topHeight = 200, bottomY = 350, passed = True\<rparr>,
      \<lparr>pipe_x = 240, topHeight = 100, bottomY = 250, passed = False\<rparr>]"
    by (simp add: passingState_def Let_def game_constants)
  from movePipes_spec [OF started, of 0]
  have "pipes (gameLoop 0 (jump initialGame)) = [generatePipe 0]"
    by (simp add: jump_def initGame_def initialGame_def Let_def generatePipe_def game_constants)
  with first show ?thesis by simp
qed

section \<open>Scoring\<close>

lemma gameLoop_score_mono: "score s \<le> score (gameLoop r s)"
  by (cases "gameState s = Playing") (simp_all add: gameLoop_score gameLoop_idle)

lemma frames_score_mono: "score s \<le> score (fold gameLoop rs s)"
proof (induction rs arbitrary: s)
  case Nil
  show ?case by simp
next
  case (Cons r rs)
  have "score s \<le> score (gameLoop r s)" by (rule gameLoop_score_mono)
  also have "\<dots> \<le> score (fold gameLoop rs (gameLoop r s))" by (rule Cons.IH)
  finally show ?case by simp
qed

text \<open>
  C4. The score never decreases over frames. In a frame of the Playing state it grows by one
  for each pipe of the sequence (as it stands after moving, removal and spawning) that is
  not yet marked \<open>passed\<close> and whose right edge \<open>pipe.x + PIPE_WIDTH\<close> is strictly left of the
  bird's \<open>x\<close>, and exactly these pipes are marked. After the frame every pipe left of the
  bird is marked, so a second scoring pass counts nothing; and a pipe that a later frame
  finds unmarked is either new or was unmarked before, so a marked pipe is never counted
  again.
\<close>

theorem score_counts_passed_pipes:
  "score s \<le> score (fold gameLoop rs s) \<and>
   (gameState s = Playing \<longrightarrow>
      score (gameLoop r s) =
        score s + length (filter (\<lambda>p. \<not> passed p \<and> pipe_x p + PIPE_WIDTH < bird_x (bird s))
                           (movePipes r (pipes s))) \<and>
      pipes (gameLoop r s) =
        map (\<lambda>p. if \<not> passed p \<and> pipe_x p + PIPE_WIDTH < bird_x (bird s)
                  then p\<lparr>passed := True\<rparr> else p)
          (movePipes r (pipes s)) \<and>
      (\<forall>p \<in> set (pipes (gameLoop r s)).
          pipe_x p + PIPE_WIDTH < bird_x (bird (gameLoop r s)) \<longrightarrow> passed p) \<and>
      snd (checkScore (bird (gameLoop r s)) (pipes (gameLoop r s)) n) = n) \<and>
   (\<forall>q \<in> set (movePipes r (pipes s)).
      \<not> passed q \<longrightarrow>
        q = generatePipe r \<or>
        (\<exists>p \<in> set (pipes s). \<not> passed p \<and> q = p\<lparr>pipe_x := pipe_x p - PIPE_SPEED\<rparr>))"
proof -
  have origin: "\<forall>q \<in> set (movePipes r (pipes s)).
      \<not> passed q \<longrightarrow>
        q = generatePipe r \<or>
        (\<exists>p \<in> set (pipes s). \<not> passed p \<and> q = p\<lparr>pipe_x := pipe_x p - PIPE_SPEED\<rparr>)"
    using movePipes_cases [of _ r "pipes s"] by fastforce
  have again: "snd (checkScore (bird (gameLoop r s)) (pipes (gameLoop r s)) n) = n"
    and marked: "\<forall>p \<in> set (pipes (gameLoop r s)).
          pipe_x p + PIPE_WIDTH < bird_x (bird (gameLoop r s)) \<longrightarrow> passed p"
    if "gameState s = Playing"
  proof -
    show marked: "\<forall>p \<in> set (pipes (gameLoop r s)).
          pipe_x p + PIPE_WIDTH < bird_x (bird (gameLoop r s)) \<longrightarrow> passed p"
      using that by (auto simp: gameLoop_pipes gameLoop_bird)
    then have "filter (\<lambda>p. \<not> passed p \<and> pipe_x p + PIPE_WIDTH < bird_x (bird (gameLoop r s)))
                 (pipes (gameLoop r s)) = []"
      by (auto simp: filter_empty_conv)
    then show "snd (checkScore (bird (gameLoop r s)) (pipes (gameLoop r s)) n) = n"
      by (simp add: checkScore_eq)
  qed
  with frames_score_mono gameLoop_score gameLoop_pipes origin show ?thesis by blast
qed

theorem score_counts_passed_pipes_witness:
  "gameState passingState = Playing \<and> score passingState = 5 \<and>
   score (gameLoop 0 passingState) = 6 \<and>
   map passed (pipes (gameLoop 0 passingState)) = [True, False] \<and>
   snd (checkScore (bird (gameLoop 0 passingState)) (pipes (gameLoop 0 passingState)) 6) = 6 \<and>
   score (gameLoop 0 (gameLoop 0 passingState)) = 6"
proof -
  have playing: "gameState passingState = Playing"
    by (simp add: passingState_def)
  have moved: "movePipes 0 (pipes passingState) =
      [\<lparr>pipe_x = 38, topHeight = 200, bottomY = 350, passed = False\<rparr>,
       \<lparr>pipe_x = 240, topHeight = 100, bottomY = 250, passed = False\<rparr>]"
    by (simp add: passingState_def movePipes_def Let_def game_constants)
  have bx: "bird_x (bird passingState) = 100" "score passingState = 5"
    by (simp_all add: passingState_def)
  from score_counts_passed_pipes [of passingState "[]" 0 6] playing
  have again: "snd (checkScore (bird (gameLoop 0 passingState))
                      (pipes (gameLoop 0 passingState)) 6) = 6"
    by blast
  from score_counts_passed_pipes [of passingState "[]" 0 6] playing
  have "score (gameLoop 0 passingState) =
          score passingState + length (filter (\<lambda>p. \<not> passed p \<and>
              pipe_x p + PIPE_WIDTH < bird_x (bird passingState)) (movePipes 0 (pipes passingState)))"
    and "pipes (gameLoop 0 passingState) =
          map (\<lambda>p. if \<not> passed p \<and> pipe_x p + PIPE_WIDTH < bird_x (bird passingState)
                    then p\<lparr>passed := True\<rparr> else p)
            (movePipes 0 (pipes passingState))"
    by blast+
  then have "score (gameLoop 0 passingState) = 6"
    and "map passed (pipes (gameLoop 0 passingState)) = [True, False]"
    unfolding moved bx by (simp_all add: game_constants)
  moreover have "score (gameLoop 0 (gameLoop 0 passingState)) = 6"
    by (simp add: passingState_def eval_defs)
  ultimately show ?thesis using playing bx again by simp
qed

section \<open>High score\<close>

lemma step_highScore: "highScore s \<le> highScore (step e s)"
  by (cases e) (simp_all add: gameLoop_highScore jump_def initGame_def)

lemma run_highScore: "highScore s \<le> highScore (run es s)"
proof (induction es arbitrary: s)
  case Nil
  show ?case by (simp add: run_def)
next
  case (Cons e es)
  have "highScore s \<le> highScore (step e s)" by (rule step_highScore)
  also have "\<dots> \<le> highScore (run es (step e s))" by (rule Cons.IH)
  finally show ?case by (simp add: run_def)
qed

text \<open>
  C9. The high score never decreases, over any run of frames, jumps and resets. A frame
  changes it only when the frame takes the state from Playing to GameOver; jump and reset
  leave it as it is.
\<close>

theorem highScore_monotone:
  "highScore s \<le> highScore (run es s) \<and>
   highScore s \<le> highScore (gameLoop r s) \<and>
   (highScore (gameLoop r s) \<noteq> highScore s \<longrightarrow>
      gameState s = Playing \<and> gameState (gameLoop r s) = GameOver) \<and>
   highScore (jump s) = highScore s \<and>
   highScore (initGame s) = highScore s"
proof -
  have "highScore s \<le> highScore (gameLoop r s)"
    using step_highScore [of s "Frame r"] by simp
  moreover have "highScore (gameLoop r s) \<noteq> highScore s \<longrightarrow>
      gameState s = Playing \<and> gameState (gameLoop r s) = GameOver"
    by (simp add: gameLoop_highScore split: if_splits)
  moreover have "highScore (jump s) = highScore s" "highScore (initGame s) = highScore s"
    by (simp_all add: jump_def initGame_def)
  ultimately show ?thesis using run_highScore by blast
qed

theorem highScore_monotone_witness:
  "highScore (gameLoop 0 groundState) = 3 \<and> highScore groundState = 1 \<and>
   gameState groundState = Playing \<and> gameState (gameLoop 0 groundState) = GameOver"
proof -
  have hs: "highScore (gameLoop 0 groundState) = 3" "highScore groundState = 1"
    by (simp_all add: groundState_def eval_defs)
  then have "highScore (gameLoop 0 groundState) \<noteq> highScore groundState" by simp
  with highScore_monotone [of groundState "[]" 0] hs show ?thesis by blast
qed

section \<open>States reached in play\<close>

text \<open>
  The invariant holds after a reset, is kept by a jump and by every frame that leaves the
  game in the Playing state, and so holds in every Playing state of a run whose random
  draws lie in \<open>[0, 1)\<close>.
\<close>

lemma energy_frame:
  "energy (b\<lparr>velocity := velocity b + GRAVITY, bird_y := bird_y b + velocity b + GRAVITY\<rparr>)
     = energy b"
  by (simp add: energy_def GRAVITY_def algebra_simps)

lemma fall_bound:
  fixes y v :: real
  assumes "y \<le> 530" and "v * v - v / 2 < y + 60"
  shows "y + 2 * v + 1 / 2 < 580"
proof (cases "v \<le> 247 / 10")
  case True
  with assms(1) show ?thesis by linarith
next
  case False
  then have v: "247 / 10 < v" by simp
  then have "247 / 10 * (v - 1 / 2) < v * (v - 1 / 2)"
    by (intro mult_strict_right_mono) simp_all
  moreover from v have "247 / 10 * (242 / 10) < 247 / 10 * (v - 1 / 2)"
    by (intro mult_strict_left_mono) simp_all
  ultimately have "590 < v * (v - 1 / 2)" by simp
  then have "590 < v * v - v / 2" by (simp add: algebra_simps)
  with assms show ?thesis by linarith
qed

lemma playInv_initGame: "playInv (initGame s)"
  by (simp add: playInv_def initGame_def energy_def)

lemma playInv_jump:
  assumes "playInv s" "gameState s = Playing"
  shows "playInv (jump s)"
  using assms
  by (auto simp: playInv_def jump_def energy_def pipeInv_def JUMP_FORCE_def)

lemma sorted_wrt_last:
  assumes "sorted_wrt R xs" "x \<in> set xs"
  shows "x = last xs \<or> R x (last xs)"
  using assms
proof (induction xs)
  case Nil
  then show ?case by simp
next
  case (Cons a xs)
  then show ?case by (cases "xs = []") auto
qed

lemma sorted_wrt_apart:
  assumes "sorted_wrt R xs" "x \<in> set xs" "y \<in> set xs"
  shows "x = y \<or> R x y \<or> R y x"
  using assms by (induction xs) auto

lemma frame_pipe_cases:
  assumes "gameState s = Playing" "bird_x (bird s) = 100" "q \<in> set (pipes (gameLoop r s))"
  shows "q = generatePipe r \<or>
         (\<exists>p \<in> set (pipes s).
            pipe_x q = pipe_x p - 2 \<and> topHeight q = topHeight p \<and> bottomY q = bottomY p \<and>
            (passed q \<longleftrightarrow> passed p \<or> pipe_x p < 42))"
proof -
  let ?mark = "\<lambda>p. if \<not> passed p \<and> pipe_x p + PIPE_WIDTH < bird_x (bird s)
                     then p\<lparr>passed := True\<rparr> else p"
  from assms(3) obtain q0 where q0: "q0 \<in> set (movePipes r (pipes s))" and q: "q = ?mark q0"
    unfolding gameLoop_pipes [OF assms(1)] by auto
  from movePipes_cases [OF q0] show ?thesis
  proof
    assume "q0 = generatePipe r"
    then have "q = generatePipe r"
      using q assms(2) by (simp add: generatePipe_def Let_def game_constants)
    then show ?thesis ..
  next
    assume "\<exists>p \<in> set (pipes s). q0 = p\<lparr>pipe_x := pipe_x p - PIPE_SPEED\<rparr>"
    then obtain p where p: "p \<in> set (pipes s)"
      and q0p: "q0 = p\<lparr>pipe_x := pipe_x p - PIPE_SPEED\<rparr>" by blast
    have "pipe_x q = pipe_x p - 2 \<and> topHeight q = topHeight p \<and> bottomY q = bottomY p \<and>
            (passed q \<longleftrightarrow> passed p \<or> pipe_x p < 42)"
      using q q0p assms(2) by (auto simp: game_constants)
    with p show ?thesis by blast
  qed
qed

lemma frame_sorted:
  assumes "sorted_wrt (\<lambda>p q. pipe_x p + 200 < pipe_x q) ps"
  shows "sorted_wrt (\<lambda>p q. pipe_x p + 200 < pipe_x q) (movePipes r ps)"
proof -
  let ?R = "\<lambda>p q :: Pipe. pipe_x p + 200 < pipe_x q"
  let ?kept = "filter (\<lambda>pipe. pipe_x pipe > - PIPE_WIDTH)
                 (map (\<lambda>pipe. pipe\<lparr>pipe_x := pipe_x pipe - PIPE_SPEED\<rparr>) ps)"
  have "sorted_wrt ?R (map (\<lambda>pipe. pipe\<lparr>pipe_x := pipe_x pipe - PIPE_SPEED\<rparr>) ps)"
    using assms by (simp add: sorted_wrt_map)
  then have kept: "sorted_wrt ?R ?kept"
    by (rule sorted_wrt_filter)
  have new: "sorted_wrt ?R (?kept @ [generatePipe r])"
    if far: "pipe_x (last ?kept) < CANVAS_WIDTH - 200"
  proof -
    have "?R p (generatePipe r)" if "p \<in> set ?kept" for p
    proof -
      from sorted_wrt_last [OF kept that] have "pipe_x p \<le> pipe_x (last ?kept)"
        by auto
      with far show ?thesis
        by (simp add: generatePipe_def Let_def game_constants)
    qed
    with kept show ?thesis by (simp add: sorted_wrt_append)
  qed
  show ?thesis
  proof (cases "?kept = []")
    case True
    then show ?thesis by (simp add: movePipes_def Let_def)
  next
    case False
    with kept new show ?thesis by (simp add: movePipes_def Let_def)
  qed
qed

lemma playInv_frame:
  assumes inv: "playInv s" and playing: "gameState s = Playing"
    and r: "0 \<le> r" "r < 1" and alive: "gameState (gameLoop r s) = Playing"
  shows "playInv (gameLoop r s)"
proof -
  let ?s' = "gameLoop r s"
  let ?y = "bird_y (bird s)" and ?v = "velocity (bird s)"
  let ?R = "\<lambda>p q :: Pipe. pipe_x p + 200 < pipe_x q"
  from inv have bx: "bird_x (bird s) = 100" and y: "0 < ?y" "?y < 580" and v: "- 8 \<le> ?v"
    and en: "- 60 < energy (bird s)"
    and pinv: "\<And>p. p \<in> set (pipes s) \<Longrightarrow> pipeInv (bird s) p"
    and sorted: "sorted_wrt ?R (pipes s)"
    by (simp_all add: playInv_def)
  have b': "bird ?s' = (bird s)\<lparr>velocity := ?v + GRAVITY, bird_y := ?y + ?v + GRAVITY\<rparr>"
    by (rule gameLoop_bird [OF playing])
  then have bx': "bird_x (bird ?s') = 100" and v': "velocity (bird ?s') = ?v + 1 / 2"
    and y': "bird_y (bird ?s') = ?y + ?v + 1 / 2"
    using bx by (simp_all add: GRAVITY_def)
  have en': "- 60 < energy (bird ?s')"
    unfolding b' energy_frame by (rule en)
  from alive have free: "\<not> checkCollision (bird ?s') (pipes ?s')"
    using gameLoop_gameState [OF playing, of r] by (simp split: if_splits)
  then have yb: "0 < bird_y (bird ?s')" "bird_y (bird ?s') < 580"
    and nohit: "\<And>q. q \<in> set (pipes ?s') \<Longrightarrow> \<not> hitsPipe (bird ?s') q"
    by (auto simp: checkCollision_def pipeLoop_iff game_constants split: if_splits)
  have pipes': "pipeInv (bird ?s') q" if q: "q \<in> set (pipes ?s')" for q
  proof -
    from frame_pipe_cases [OF playing bx q]
    show ?thesis
    proof
      assume "q = generatePipe r"
      with r show ?thesis
        by (simp add: pipeInv_def generatePipe_def Let_def game_constants)
    next
      assume "\<exists>p \<in> set (pipes s).
            pipe_x q = pipe_x p - 2 \<and> topHeight q = topHeight p \<and> bottomY q = bottomY p \<and>
            (passed q \<longleftrightarrow> passed p \<or> pipe_x p < 42)"
      then obtain p where p: "p \<in> set (pipes s)" and xq: "pipe_x q = pipe_x p - 2"
        and tq: "topHeight q = topHeight p" and bq: "bottomY q = bottomY p"
        and pq: "passed q \<longleftrightarrow> passed p \<or> pipe_x p < 42" by blast
      from pinv [OF p] have top: "50 \<le> topHeight p" and bot: "bottomY p \<le> 550"
        and pp: "passed p \<longleftrightarrow> pipe_x p < 40"
        and gap: "40 < pipe_x p \<and> pipe_x p < 120 \<longrightarrow>
                    topHeight p \<le> ?y \<and> ?y + 20 \<le> bottomY p"
        by (simp_all add: pipeInv_def)
      have flag: "passed q \<longleftrightarrow> pipe_x q < 40"
        using pq pp xq by auto
      have inside: "topHeight q \<le> bird_y (bird ?s') \<and> bird_y (bird ?s') + 20 \<le> bottomY q"
        if "40 < pipe_x q" "pipe_x q < 120"
        using nohit [OF q] that bx' by (auto simp: hitsPipe_def game_constants)
      have ahead: "15 / 2 < bird_y (bird ?s') \<and>
                   bird_y (bird ?s') + velocity (bird ?s') + 1 / 2 < 580"
        if "40 \<le> pipe_x q" "pipe_x q < 42"
      proof -
        from that xq gap top bot have yy: "50 \<le> ?y" "?y \<le> 530" by auto
        define w where "w = ?v + 1 / 2"
        have "energy (bird ?s') = ?y + w - w * w - w / 2"
          by (simp add: energy_def v' y' w_def)
        with en' have "w * w - w / 2 < ?y + 60" by linarith
        with yy(2) have "?y + 2 * w + 1 / 2 < 580" by (rule fall_bound)
        with yy(1) v show ?thesis by (simp add: v' y' w_def)
      qed
      from top bot flag inside ahead show ?thesis
        by (simp add: pipeInv_def tq bq)
    qed
  qed
  have "sorted_wrt ?R (movePipes r (pipes s))"
    using sorted by (rule frame_sorted)
  then have sorted': "sorted_wrt ?R (pipes ?s')"
    unfolding gameLoop_pipes [OF playing] sorted_wrt_map
    by (rule sorted_wrt_mono_rel [rotated]) auto
  from bx' yb v v' en' pipes' sorted' show ?thesis
    by (simp add: playInv_def)
qed

lemma playInv_step:
  assumes "gameState s = Playing \<longrightarrow> playInv s" "validEvent e"
  shows "gameState (step e s) = Playing \<longrightarrow> playInv (step e s)"
proof (cases e)
  case (Frame r)
  show ?thesis
  proof (cases "gameState s = Playing")
    case True
    with assms Frame show ?thesis by (auto intro: playInv_frame)
  next
    case False
    then show ?thesis by (simp add: Frame gameLoop_idle)
  qed
next
  case Impulse
  show ?thesis
  proof (cases "gameState s = Playing")
    case True
    with assms(1) have "playInv (jump s)" by (simp add: playInv_jump)
    then show ?thesis by (simp add: Impulse)
  next
    case False
    then have "jump s = initGame s" by (cases "gameState s") (simp_all add: jump_def)
    then show ?thesis by (simp add: Impulse playInv_initGame)
  qed
next
  case Reset
  then show ?thesis by (simp add: playInv_initGame)
qed

lemma run_snoc: "run (es @ [e]) s = step e (run es s)"
  by (simp add: run_def)

lemma playInv_run:
  "list_all validEvent es \<Longrightarrow>
   gameState (run es initialGame) = Playing \<longrightarrow> playInv (run es initialGame)"
proof (induction es rule: rev_induct)
  case Nil
  show ?case by (simp add: run_def initialGame_def)
next
  case (snoc e es)
  then have "gameState (run es initialGame) = Playing \<longrightarrow> playInv (run es initialGame)"
    and "validEvent e" by simp_all
  then show ?case unfolding run_snoc by (rule playInv_step)
qed

text \<open>
  In such a state a frame that scores a pipe does not collide: the scored pipe is at
  \<open>40 \<le> x < 42\<close>, every other pipe is more than 200 away from it and so clear of the
  bird, and the bird stays between ceiling and ground. Hence a frame that detects a
  collision leaves the score as it was.
\<close>

lemma scoring_frame_is_free:
  assumes inv: "playInv s" and playing: "gameState s = Playing"
    and scored: "score (gameLoop r s) \<noteq> score s"
  shows "\<not> checkCollision (bird (gameLoop r s)) (pipes (gameLoop r s))"
proof -
  let ?s' = "gameLoop r s"
  let ?y = "bird_y (bird s)" and ?v = "velocity (bird s)"
  from inv have bx: "bird_x (bird s) = 100" and v: "- 8 \<le> ?v"
    and pinv: "\<And>p. p \<in> set (pipes s) \<Longrightarrow> pipeInv (bird s) p"
    and sorted: "sorted_wrt (\<lambda>p q. pipe_x p + 200 < pipe_x q) (pipes s)"
    by (simp_all add: playInv_def)
  have bx': "bird_x (bird ?s') = 100" and y': "bird_y (bird ?s') = ?y + ?v + 1 / 2"
    using bx by (simp_all add: gameLoop_bird [OF playing] GRAVITY_def)
  from scored obtain q0 where q0: "q0 \<in> set (movePipes r (pipes s))"
    and fresh: "\<not> passed q0" and left: "pipe_x q0 + PIPE_WIDTH < bird_x (bird s)"
    unfolding gameLoop_score [OF playing] by (auto simp: filter_empty_conv)
  from left bx have "q0 \<noteq> generatePipe r"
    by (auto simp: generatePipe_def Let_def game_constants)
  with movePipes_cases [OF q0] obtain p where p: "p \<in> set (pipes s)"
    and q0p: "q0 = p\<lparr>pipe_x := pipe_x p - PIPE_SPEED\<rparr>" by blast
  from fresh left bx q0p have "\<not> passed p" "pipe_x p < 42"
    by (simp_all add: game_constants)
  with pinv [OF p] have xp: "40 \<le> pipe_x p" "pipe_x p < 42"
    and room: "15 / 2 < ?y" "?y + ?v + 1 / 2 < 580"
    by (auto simp: pipeInv_def)
  have "\<not> hitsPipe (bird ?s') q" if q: "q \<in> set (pipes ?s')" for q
  proof -
    from frame_pipe_cases [OF playing bx q] show ?thesis
    proof
      assume "q = generatePipe r"
      then show ?thesis
        by (simp add: hitsPipe_def bx' generatePipe_def Let_def game_constants)
    next
      assume "\<exists>p \<in> set (pipes s).
            pipe_x q = pipe_x p - 2 \<and> topHeight q = topHeight p \<and> bottomY q = bottomY p \<and>
            (passed q \<longleftrightarrow> passed p \<or> pipe_x p < 42)"
      then obtain p2 where p2: "p2 \<in> set (pipes s)" and xq: "pipe_x q = pipe_x p2 - 2"
        by blast
      from sorted_wrt_apart [OF sorted p p2]
      have "p = p2 \<or> pipe_x p + 200 < pipe_x p2 \<or> pipe_x p2 + 200 < pipe_x p" .
      with xp xq have "pipe_x q < 40 \<or> 238 < pipe_x q" by auto
      then show ?thesis
        by (auto simp: hitsPipe_def bx' game_constants)
    qed
  qed
  with room v y' show ?thesis
    by (simp add: checkCollision_def pipeLoop_iff game_constants)
qed

lemma reachable_collision_keeps_score:
  assumes "list_all validEvent es" and "gameState (run es initialGame) = Playing"
    and "checkCollision (bird (gameLoop r (run es initialGame)))
           (pipes (gameLoop r (run es initialGame)))"
  shows "score (gameLoop r (run es initialGame)) = score (run es initialGame)"
proof -
  from assms(1,2) have "playInv (run es initialGame)"
    using playInv_run by blast
  with assms(2,3) show ?thesis
    using scoring_frame_is_free by blast
qed

text \<open>
  In such a state the pipes are ordered by \<open>x\<close>, so the last pipe that line 106 reads is the
  rightmost one.
\<close>

lemma reachable_last_is_rightmost:
  assumes "list_all validEvent es" and "gameState (run es initialGame) = Playing"
    and "p \<in> set (filter (\<lambda>pipe. pipe_x pipe > - PIPE_WIDTH)
                 (map (\<lambda>pipe. pipe\<lparr>pipe_x := pipe_x pipe - PIPE_SPEED\<rparr>)
                    (pipes (run es initialGame))))"
  shows "pipe_x p \<le> pipe_x (last (filter (\<lambda>pipe. pipe_x pipe > - PIPE_WIDTH)
                 (map (\<lambda>pipe. pipe\<lparr>pipe_x := pipe_x pipe - PIPE_SPEED\<rparr>)
                    (pipes (run es initialGame)))))"
proof -
  let ?R = "\<lambda>p q :: Pipe. pipe_x p + 200 < pipe_x q"
  from assms(1,2) have "playInv (run es initialGame)"
    using playInv_run by blast
  then have "sorted_wrt ?R (pipes (run es initialGame))"
    by (simp add: playInv_def)
  then have "sorted_wrt ?R (map (\<lambda>pipe. pipe\<lparr>pipe_x := pipe_x pipe - PIPE_SPEED\<rparr>)
                              (pipes (run es initialGame)))"
    by (simp add: sorted_wrt_map)
  then have "sorted_wrt ?R (filter (\<lambda>pipe. pipe_x pipe > - PIPE_WIDTH)
                 (map (\<lambda>pipe. pipe\<lparr>pipe_x := pipe_x pipe - PIPE_SPEED\<rparr>)
                    (pipes (run es initialGame))))"
    by (rule sorted_wrt_filter)
  from sorted_wrt_last [OF this assms(3)] show ?thesis by auto
qed

text \<open>
  C2. In every Playing state that a run from the initial state reaches (random draws in
  \<open>[0, 1)\<close>), a frame that detects a collision sets the state to GameOver and the high score
  to the maximum of the previous high score and the score after that frame, which includes
  any point of that frame. Line 121 reads the score the frame started with; a frame that
  collides scores no point, so the two scores are the same.
\<close>

theorem highScore_on_collision:
  assumes "list_all validEvent es" and "gameState (run es initialGame) = Playing"
    and "checkCollision (bird (gameLoop r (run es initialGame)))
           (pipes (gameLoop r (run es initialGame)))"
  shows "gameState (gameLoop r (run es initialGame)) = GameOver \<and>
         highScore (gameLoop r (run es initialGame)) =
           max (highScore (run es initialGame)) (score (gameLoop r (run es initialGame))) \<and>
         score (gameLoop r (run es initialGame)) = score (run es initialGame)"
proof -
  from assms have same: "score (gameLoop r (run es initialGame)) = score (run es initialGame)"
    by (rule reachable_collision_keeps_score)
  from assms(2,3) have over: "gameState (gameLoop r (run es initialGame)) = GameOver"
    by (simp add: gameLoop_gameState)
  with assms(2) have "highScore (gameLoop r (run es initialGame)) =
      max (highScore (run es initialGame)) (score (run es initialGame))"
    by (simp add: gameLoop_highScore)
  with same over show ?thesis by simp
qed

lemma hoverRun_state:
  "run hoverRun initialGame =
    \<lparr>bird = \<lparr>bird_x = 100, bird_y = 573, velocity = 18\<rparr>,
       pipes = [\<lparr>pipe_x = - 12, topHeight = 190, bottomY = 340, passed = True\<rparr>,
                \<lparr>pipe_x = 190, topHeight = 190, bottomY = 340, passed = False\<rparr>,
                \<lparr>pipe_x = 392, topHeight = 190, bottomY = 340, passed = False\<rparr>],
       score = 1, gameState = Playing, highScore = 0\<rparr>"
  by (simp add: hoverRun_def run_def eval_defs initialGame_def startBird_def eval_nat_numeral)

theorem highScore_on_collision_witness:
  "gameState (run hoverRun initialGame) = Playing \<and>
   score (run hoverRun initialGame) = 1 \<and> highScore (run hoverRun initialGame) = 0 \<and>
   gameState (gameLoop (2/5) (run hoverRun initialGame)) = GameOver \<and>
   score (gameLoop (2/5) (run hoverRun initialGame)) = 1 \<and>
   highScore (gameLoop (2/5) (run hoverRun initialGame)) = 1"
proof -
  have valid: "list_all validEvent hoverRun"
    by (simp add: hoverRun_def list_all_iff)
  have before: "gameState (run hoverRun initialGame) = Playing"
    "score (run hoverRun initialGame) = 1" "highScore (run hoverRun initialGame) = 0"
    by (simp_all add: hoverRun_state)
  have hit: "checkCollision (bird (gameLoop (2/5) (run hoverRun initialGame)))
               (pipes (gameLoop (2/5) (run hoverRun initialGame)))"
    unfolding hoverRun_state by (simp add: eval_defs)
  from highScore_on_collision [OF valid before(1) hit] before show ?thesis
    by simp
qed

end
